theory Spec2Isabelle
  imports Complex_Main
begin

section \<open>Mortgage\_Algo.py: data model\<close>

text \<open>
  The program computes with Python floats. They are modelled here as real numbers, so
  arithmetic is exact: rounding, overflow and NaN are outside the model. The one
  exception is the product that \<open>int()\<close> truncates at construction, whose rounding
  is kept explicit (see \<open>Mortgage_init\<close>). Python integers are \<open>int\<close>. The
  exceptions the code can raise are values of \<open>py_error\<close>, and a function that can
  raise returns \<open>py_error + 'a\<close>.
\<close>

datatype py_error = ZeroDivisionError | IndexError | ValueError

text \<open>The attributes that \<open>Mortgage.__init__\<close> sets on \<open>self\<close>.\<close>

record mortgage =
  principal :: real
  annual_rate :: real
  years :: real
  compounds_per_year :: int
  monthly_rate :: real
  total_periods :: int
  monthly_payment :: real

text \<open>
  One row of the schedule: the dictionary with the keys \<open>period\<close>, \<open>payment\<close>,
  \<open>interest\<close>, \<open>principal\<close>, \<open>extra\<close> and \<open>balance\<close>. The key \<open>principal\<close> is the
  field \<open>principal_paid\<close> (the name of the local variable stored under it), since
  \<open>principal\<close> is already the loan's attribute.
\<close>

record entry =
  period :: int
  payment :: real
  interest :: real
  principal_paid :: real
  extra :: real
  balance :: real

text \<open>The dictionary returned by \<open>summarize_schedule\<close>.\<close>

record summary =
  total_paid :: real
  total_interest :: real
  periods_used :: int

section \<open>Loan construction\<close>

text \<open>\<open>int(x)\<close> on a float truncates toward zero.\<close>

definition py_int :: "real \<Rightarrow> int" where
  "py_int x = (if 0 \<le> x then \<lfloor>x\<rfloor> else \<lceil>x\<rceil>)"

text \<open>
  \<open>x ** n\<close> for a float \<open>x\<close> and an integer \<open>n\<close>: zero to a negative power raises
  ZeroDivisionError.
\<close>

definition py_pow :: "real \<Rightarrow> int \<Rightarrow> py_error + real" where
  "py_pow x n = (if x = 0 \<and> n < 0 then Inl ZeroDivisionError else Inr (power_int x n))"

text \<open>Float division raises ZeroDivisionError on a zero divisor.\<close>

definition py_div :: "real \<Rightarrow> real \<Rightarrow> py_error + real" where
  "py_div a b = (if b = 0 then Inl ZeroDivisionError else Inr (a / b))"

text \<open>
  \<open>_calc_periodic_payment\<close> reads \<open>self.monthly_rate\<close>, \<open>self.total_periods\<close> and
  \<open>self.principal\<close>, which are its arguments here, in that order:
  \<^verbatim>\<open>return P * (r * (1 + r) ** n) / ((1 + r) ** n - 1)\<close>
\<close>

definition calc_periodic_payment :: "real \<Rightarrow> int \<Rightarrow> real \<Rightarrow> py_error + real" where
  "calc_periodic_payment r n P =
     (case py_pow (1 + r) n of
        Inl e \<Rightarrow> Inl e
      | Inr pw \<Rightarrow> py_div (P * (r * pw)) (pw - 1))"

text \<open>
  \<open>Mortgage.__init__\<close>. The division by \<open>compounds_per_year\<close> is the first operation
  that can raise; the payment formula is the second.

  \<open>int(years * compounds_per_year)\<close> truncates the double that the multiplication
  returns, and a truncation does not absorb a rounding: for the double nearest to one
  third and 12 periods a year the exact product is below 4, the double product is 4.0,
  and the loan has 4 periods. So \<open>fl\<close>, the first argument, is the rounding of the
  multiplication: it maps the exact product to the double the code truncates. Nothing is
  assumed of it; it is the identity where the product is a double already.
\<close>

definition Mortgage_init ::
  "(real \<Rightarrow> real) \<Rightarrow> real \<Rightarrow> real \<Rightarrow> real \<Rightarrow> int \<Rightarrow> py_error + mortgage" where
  "Mortgage_init fl P rate_percent yrs cpy =
     (let ar = rate_percent / 100 in
      case py_div ar (of_int cpy) of
        Inl e \<Rightarrow> Inl e
      | Inr r \<Rightarrow>
          (let n = py_int (fl (yrs * of_int cpy)) in
           case calc_periodic_payment r n P of
             Inl e \<Rightarrow> Inl e
           | Inr mp \<Rightarrow>
               Inr \<lparr>principal = P, annual_rate = ar, years = yrs,
                    compounds_per_year = cpy, monthly_rate = r,
                    total_periods = n, monthly_payment = mp\<rparr>))"

section \<open>Schedule generation\<close>

text \<open>\<open>d.get(k, default)\<close> on a dictionary.\<close>

definition dict_get :: "('k \<rightharpoonup> 'v) \<Rightarrow> 'k \<Rightarrow> 'v \<Rightarrow> 'v" where
  "dict_get d k dflt = (case d k of None \<Rightarrow> dflt | Some v \<Rightarrow> v)"

text \<open>
  The body of the \<open>for period in range(1, self.total_periods + 1)\<close> loop, as a recursion
  over the periods still to come; \<open>bal\<close> is the running \<open>balance\<close>. The \<open>break\<close> is the
  branch that returns the entry alone.
\<close>

fun schedule_loop ::
  "mortgage \<Rightarrow> real \<Rightarrow> (int \<rightharpoonup> real) \<Rightarrow> int list \<Rightarrow> real \<Rightarrow> entry list" where
  "schedule_loop m recurring_extra lumpsum_extras [] bal = []"
| "schedule_loop m recurring_extra lumpsum_extras (p # ps) bal =
     (let interest_v = bal * monthly_rate m;
          principal_v = monthly_payment m - interest_v;
          extra_v = recurring_extra + dict_get lumpsum_extras p 0;
          overpay = (principal_v + extra_v > bal);
          principal_v' = (if overpay then bal else principal_v);
          payment_v = (if overpay then bal + interest_v else monthly_payment m + extra_v);
          extra_v' = (if overpay then 0 else extra_v);
          bal' = bal - (principal_v' + extra_v');
          e = \<lparr>period = p, payment = payment_v, interest = interest_v,
               principal_paid = principal_v', extra = extra_v',
               balance = max bal' 0\<rparr>
      in if bal' \<le> 0 then [e]
         else e # schedule_loop m recurring_extra lumpsum_extras ps bal')"

text \<open>\<open>if lumpsum_extras is None: lumpsum_extras = {}\<close>\<close>

definition lumpsums_of :: "(int \<rightharpoonup> real) option \<Rightarrow> (int \<rightharpoonup> real)" where
  "lumpsums_of lumpsum_extras = (case lumpsum_extras of None \<Rightarrow> Map.empty | Some d \<Rightarrow> d)"

text \<open>\<open>amortization_schedule\<close>: the loop over the periods 1 to \<open>total_periods\<close>, from the principal.\<close>

definition amortization_schedule ::
  "mortgage \<Rightarrow> real \<Rightarrow> (int \<rightharpoonup> real) option \<Rightarrow> entry list" where
  "amortization_schedule m recurring_extra lumpsum_extras =
     schedule_loop m recurring_extra (lumpsums_of lumpsum_extras)
       [1..total_periods m] (principal m)"

section \<open>Summarization\<close>

text \<open>\<open>schedule[-1]\<close> raises IndexError on an empty schedule, after the two sums.\<close>

definition summarize_schedule :: "entry list \<Rightarrow> py_error + summary" where
  "summarize_schedule schedule =
     (let tp = sum_list (map payment schedule);
          ti = sum_list (map interest schedule)
      in if schedule = [] then Inl IndexError
         else Inr \<lparr>total_paid = tp, total_interest = ti,
                   periods_used = period (last schedule)\<rparr>)"

section \<open>Strategy optimization\<close>

text \<open>
  \<open>min(items, key=f)\<close>: the first item whose key is minimal (a later item replaces the
  current one only when its key is strictly smaller); ValueError on no items.
\<close>

fun py_min_by :: "('a \<Rightarrow> real) \<Rightarrow> 'a list \<Rightarrow> py_error + 'a" where
  "py_min_by key [] = Inl ValueError"
| "py_min_by key (x # xs) =
     Inr (foldl (\<lambda>best y. if key y < key best then y else best) x xs)"

text \<open>The schedule of strategy 1: the whole budget as one lump sum at \<open>start_period\<close>.\<close>

definition single_lumpsum_schedule :: "mortgage \<Rightarrow> real \<Rightarrow> int \<Rightarrow> entry list" where
  "single_lumpsum_schedule m total_extra_budget start_period =
     amortization_schedule m 0 (Some [start_period \<mapsto> total_extra_budget])"

text \<open>
  The schedule of strategy 2, generated only when \<open>remaining_periods > 0\<close>; the division
  cannot raise there.
\<close>

definition uniform_monthly_schedule :: "mortgage \<Rightarrow> real \<Rightarrow> int \<Rightarrow> entry list option" where
  "uniform_monthly_schedule m total_extra_budget start_period =
     (let remaining_periods = total_periods m - start_period + 1 in
      if remaining_periods > 0
      then (let monthly_extra = total_extra_budget / of_int remaining_periods
            in Some (amortization_schedule m monthly_extra None))
      else None)"

text \<open>
  The schedule of strategy 3. \<open>math.ceil\<close> of the true division gives \<open>years\<close>; both
  divisions raise on a zero divisor. The dictionary comprehension stores the keys in the
  order of \<open>range(years)\<close>.
\<close>

definition annual_lumpsum_schedule :: "mortgage \<Rightarrow> real \<Rightarrow> int \<Rightarrow> py_error + entry list" where
  "annual_lumpsum_schedule m total_extra_budget start_period =
     (case py_div (of_int (total_periods m - start_period + 1))
                  (of_int (compounds_per_year m)) of
        Inl e \<Rightarrow> Inl e
      | Inr q \<Rightarrow>
          (let yrs = \<lceil>q\<rceil> in
           case py_div total_extra_budget (of_int yrs) of
             Inl e \<Rightarrow> Inl e
           | Inr annual_extra \<Rightarrow>
               (let lumpsum_annual =
                      foldl (\<lambda>d i. d(start_period + i * compounds_per_year m \<mapsto> annual_extra))
                        Map.empty
                        (filter (\<lambda>i. start_period + i * compounds_per_year m \<le> total_periods m)
                           [0..yrs - 1])
                in Inr (amortization_schedule m 0 (Some lumpsum_annual)))))"

text \<open>
  \<open>optimize_extra\<close>. \<open>results\<close> is the insertion-ordered dictionary, as the list of its
  items; the three names are distinct, so no insertion replaces an earlier one.
\<close>

definition optimize_extra :: "mortgage \<Rightarrow> real \<Rightarrow> int \<Rightarrow> py_error + (string \<times> summary)" where
  "optimize_extra m total_extra_budget start_period =
     (case summarize_schedule (single_lumpsum_schedule m total_extra_budget start_period) of
        Inl e \<Rightarrow> Inl e
      | Inr s1 \<Rightarrow>
          (let results1 = [(''single_lumpsum'', s1)] in
           case (case uniform_monthly_schedule m total_extra_budget start_period of
                   None \<Rightarrow> Inr results1
                 | Some sched \<Rightarrow>
                     (case summarize_schedule sched of
                        Inl e \<Rightarrow> Inl e
                      | Inr s2 \<Rightarrow> Inr (results1 @ [(''uniform_monthly'', s2)]))) of
             Inl e \<Rightarrow> Inl e
           | Inr results2 \<Rightarrow>
               (case annual_lumpsum_schedule m total_extra_budget start_period of
                  Inl e \<Rightarrow> Inl e
                | Inr sched \<Rightarrow>
                    (case summarize_schedule sched of
                       Inl e \<Rightarrow> Inl e
                     | Inr s3 \<Rightarrow>
                         py_min_by (\<lambda>kv. total_interest (snd kv))
                           (results2 @ [(''annual_lumpsum'', s3)])))))"

section \<open>Notions used to state the properties\<close>

text \<open>
  The balance the loop holds when it starts the period of the \<open>i\<close>-th entry (counted
  from 0): the starting balance for the first entry, the balance field of the entry
  before otherwise.
\<close>

definition start_balance :: "real \<Rightarrow> entry list \<Rightarrow> nat \<Rightarrow> real" where
  "start_balance b0 sched i = (if i = 0 then b0 else balance (sched ! (i - 1)))"

text \<open>The extra the loop computes for period \<open>p\<close>, before the early-payoff test.\<close>

definition period_extra :: "real \<Rightarrow> (int \<rightharpoonup> real) \<Rightarrow> int \<Rightarrow> real" where
  "period_extra recurring_extra lumpsum_extras p = recurring_extra + dict_get lumpsum_extras p 0"

text \<open>The entry the loop body appends for period \<open>p\<close>, extra \<open>x\<close> and balance \<open>bal\<close>.\<close>

definition period_entry :: "mortgage \<Rightarrow> int \<Rightarrow> real \<Rightarrow> real \<Rightarrow> entry" where
  "period_entry m p x bal =
     (if bal < monthly_payment m - bal * monthly_rate m + x
      then \<lparr>period = p, payment = bal + bal * monthly_rate m,
             interest = bal * monthly_rate m, principal_paid = bal, extra = 0,
             balance = 0\<rparr>
      else \<lparr>period = p, payment = monthly_payment m + x,
             interest = bal * monthly_rate m,
             principal_paid = monthly_payment m - bal * monthly_rate m, extra = x,
             balance = bal - (monthly_payment m - bal * monthly_rate m + x)\<rparr>)"

text \<open>
  The balance that \<open>k\<close> nominal payments clear exactly: one payment takes
  \<open>payoff_balance m (Suc k)\<close>, with its interest, down to \<open>payoff_balance m k\<close>.
\<close>

fun payoff_balance :: "mortgage \<Rightarrow> nat \<Rightarrow> real" where
  "payoff_balance m 0 = 0"
| "payoff_balance m (Suc k) = (payoff_balance m k + monthly_payment m) / (1 + monthly_rate m)"

text \<open>
  The facts about a constructed loan that the balance arguments use: positive rate,
  payment and principal, at least one period, and a principal that the nominal payments
  of all periods clear exactly.
\<close>

definition amortizing :: "mortgage \<Rightarrow> bool" where
  "amortizing m \<longleftrightarrow>
     0 < monthly_rate m \<and> 0 < monthly_payment m \<and> 0 < principal m \<and>
     1 \<le> total_periods m \<and>
     payoff_balance m (nat (total_periods m)) = principal m"

text \<open>
  The loan \<open>Mortgage(300, 100, 2, 1)\<close>: two yearly periods at 100 percent, payment 400.
  It is the concrete input of the evaluations below.
\<close>

abbreviation example_loan :: mortgage where
  "example_loan \<equiv>
     \<lparr>principal = 300, annual_rate = 1, years = 2, compounds_per_year = 1,
      monthly_rate = 1, total_periods = 2, monthly_payment = 400\<rparr>"

section \<open>The loop, one period at a time\<close>

lemma schedule_loop_Cons:
  "schedule_loop m re ls (p # ps) bal =
     period_entry m p (period_extra re ls p) bal #
       (if balance (period_entry m p (period_extra re ls p) bal) \<le> 0 then []
        else schedule_loop m re ls ps (balance (period_entry m p (period_extra re ls p) bal)))"
  by (simp add: Let_def max_def period_entry_def period_extra_def)

declare schedule_loop.simps(2) [simp del]

lemma length_schedule_loop: "length (schedule_loop m re ls ps bal) \<le> length ps"
proof (induction ps arbitrary: bal)
  case Nil
  show ?case by simp
next
  case (Cons p ps)
  then show ?case by (simp add: schedule_loop_Cons)
qed

lemma schedule_loop_Nil_iff: "schedule_loop m re ls ps bal = [] \<longleftrightarrow> ps = []"
  by (cases ps) (simp_all add: schedule_loop_Cons)

text \<open>
  Every entry is the loop body's entry for its period and the balance before it, and it
  has a successor exactly when its balance is positive and a period is left.
\<close>

lemma schedule_loop_nth:
  assumes "i < length (schedule_loop m re ls ps b0)"
  shows "schedule_loop m re ls ps b0 ! i =
           period_entry m (ps ! i) (period_extra re ls (ps ! i))
             (start_balance b0 (schedule_loop m re ls ps b0) i) \<and>
         (Suc i < length (schedule_loop m re ls ps b0) \<longleftrightarrow>
            0 < balance (schedule_loop m re ls ps b0 ! i) \<and> Suc i < length ps)"
  using assms
proof (induction ps arbitrary: b0 i)
  case Nil
  then show ?case by simp
next
  case (Cons p ps)
  let ?e = "period_entry m p (period_extra re ls p) b0"
  show ?case
  proof (cases i)
    case 0
    then show ?thesis
      by (auto simp add: schedule_loop_Cons start_balance_def schedule_loop_Nil_iff)
  next
    case (Suc j)
    with Cons.prems have pos: "\<not> balance ?e \<le> 0"
      and j: "j < length (schedule_loop m re ls ps (balance ?e))"
      by (auto simp add: schedule_loop_Cons split: if_splits)
    have eq: "schedule_loop m re ls (p # ps) b0 = ?e # schedule_loop m re ls ps (balance ?e)"
      using pos by (simp add: schedule_loop_Cons)
    have sb: "start_balance b0 (?e # schedule_loop m re ls ps (balance ?e)) (Suc j)
               = start_balance (balance ?e) (schedule_loop m re ls ps (balance ?e)) j"
      by (cases j) (simp_all add: start_balance_def)
    show ?thesis unfolding Suc eq sb using Cons.IH[OF j] by simp
  qed
qed

lemma amortization_schedule_nth:
  assumes "i < length (amortization_schedule m re lo)"
  shows "amortization_schedule m re lo ! i =
           period_entry m (1 + int i) (period_extra re (lumpsums_of lo) (1 + int i))
             (start_balance (principal m) (amortization_schedule m re lo) i)"
    and "Suc i < length (amortization_schedule m re lo) \<longleftrightarrow>
           0 < balance (amortization_schedule m re lo ! i) \<and> 1 + int i < total_periods m"
proof -
  let ?ps = "[1..total_periods m]"
  have len: "i < length ?ps"
    using assms length_schedule_loop[of m re "lumpsums_of lo" ?ps "principal m"]
    by (simp add: amortization_schedule_def)
  then have nth: "?ps ! i = 1 + int i" by simp
  from len have suc: "Suc i < length ?ps \<longleftrightarrow> 1 + int i < total_periods m" by auto
  from schedule_loop_nth[of i m re "lumpsums_of lo" ?ps "principal m"] assms
  show "amortization_schedule m re lo ! i =
           period_entry m (1 + int i) (period_extra re (lumpsums_of lo) (1 + int i))
             (start_balance (principal m) (amortization_schedule m re lo) i)"
    and "Suc i < length (amortization_schedule m re lo) \<longleftrightarrow>
           0 < balance (amortization_schedule m re lo ! i) \<and> 1 + int i < total_periods m"
    unfolding amortization_schedule_def nth suc by simp_all
qed

lemma example_lump_1_200:
  "amortization_schedule example_loan 0 (Some [1 \<mapsto> 200]) =
     [\<lparr>period = 1, payment = 600, interest = 300, principal_paid = 100, extra = 200,
        balance = 0\<rparr>]"
  by code_simp

section \<open>The early-payoff rule\<close>

text \<open>
  C1, as the code has it. In the period of the \<open>i\<close>-th entry, with \<open>b\<close> the balance at its
  start, \<open>pp\<close> the principal component and \<open>x\<close> the extra: when \<open>pp + x > b\<close> (strictly)
  the entry is the last one, its principal component is \<open>b\<close>, its extra is 0 and its
  payment is \<open>b\<close> plus the interest; in every other period the payment is the nominal
  payment plus \<open>x\<close>, and principal component and extra are left as computed. In the
  boundary case \<open>pp + x = b\<close> the entry is the last one too, but it is not capped.
\<close>

theorem early_payoff_strict:
  assumes "i < length (amortization_schedule m re lo)"
  shows "(let S = amortization_schedule m re lo; e = S ! i;
              b = start_balance (principal m) S i;
              x = period_extra re (lumpsums_of lo) (1 + int i);
              pp = monthly_payment m - b * monthly_rate m
          in period e = 1 + int i \<and>
             (pp + x > b \<longrightarrow>
                Suc i = length S \<and> principal_paid e = b \<and> extra e = 0 \<and>
                payment e = b + b * monthly_rate m) \<and>
             (pp + x \<le> b \<longrightarrow>
                payment e = monthly_payment m + x \<and> principal_paid e = pp \<and> extra e = x) \<and>
             (pp + x = b \<longrightarrow> Suc i = length S))"
proof -
  let ?S = "amortization_schedule m re lo"
  let ?b = "start_balance (principal m) ?S i"
  let ?x = "period_extra re (lumpsums_of lo) (1 + int i)"
  let ?pp = "monthly_payment m - ?b * monthly_rate m"
  note nth = amortization_schedule_nth[OF assms]
  have per: "period (?S ! i) = 1 + int i"
    by (subst nth(1)) (simp add: period_entry_def)
  have final: "Suc i = length ?S" if "balance (?S ! i) = 0"
    using nth(2) that assms by simp
  have strict: "Suc i = length ?S \<and> principal_paid (?S ! i) = ?b \<and> extra (?S ! i) = 0 \<and>
                payment (?S ! i) = ?b + ?b * monthly_rate m" if "?pp + ?x > ?b"
  proof -
    have e: "?S ! i = \<lparr>period = 1 + int i, payment = ?b + ?b * monthly_rate m,
               interest = ?b * monthly_rate m, principal_paid = ?b, extra = 0,
               balance = 0\<rparr>"
      using that by (subst nth(1)) (simp add: period_entry_def)
    then show ?thesis using final by simp
  qed
  have other: "payment (?S ! i) = monthly_payment m + ?x \<and> principal_paid (?S ! i) = ?pp \<and>
               extra (?S ! i) = ?x \<and> balance (?S ! i) = ?b - (?pp + ?x)" if "?pp + ?x \<le> ?b"
  proof -
    have e: "?S ! i = \<lparr>period = 1 + int i, payment = monthly_payment m + ?x,
               interest = ?b * monthly_rate m, principal_paid = ?pp, extra = ?x,
               balance = ?b - (?pp + ?x)\<rparr>"
      using that by (subst nth(1)) (simp add: period_entry_def)
    then show ?thesis by simp
  qed
  have boundary: "Suc i = length ?S" if "?pp + ?x = ?b"
    using other that final by simp
  show ?thesis unfolding Let_def using per strict other boundary by blast
qed

theorem early_payoff_strict_witness:
  "(0::nat) < length (amortization_schedule example_loan 0 (Some [1 \<mapsto> 200])) \<and>
   period (amortization_schedule example_loan 0 (Some [1 \<mapsto> 200]) ! 0) = 1 \<and>
   payment (amortization_schedule example_loan 0 (Some [1 \<mapsto> 200]) ! 0) = 400 + 200 \<and>
   Suc 0 = length (amortization_schedule example_loan 0 (Some [1 \<mapsto> 200]))"
  using early_payoff_strict[of 0 example_loan 0 "Some [1 \<mapsto> 200]"]
  by (simp add: example_lump_1_200 start_balance_def period_extra_def dict_get_def
      lumpsums_of_def)

text \<open>
  C1 as stated fails in the boundary case. With a lump sum of 200 in period 1 of the
  example loan the balance is 300, the principal component 100, so
  \<open>principal_component + extra = balance\<close>; the entry keeps the extra 200 and the
  principal component 100, where the claim has 0 and 300.
\<close>

theorem early_payoff_boundary_counterexample:
  "start_balance (principal example_loan)
     (amortization_schedule example_loan 0 (Some [1 \<mapsto> 200])) 0 = 300 \<and>
   (monthly_payment example_loan - 300 * monthly_rate example_loan)
     + period_extra 0 [1 \<mapsto> 200] 1 = 300 \<and>
   extra (amortization_schedule example_loan 0 (Some [1 \<mapsto> 200]) ! 0) = 200 \<and>
   principal_paid (amortization_schedule example_loan 0 (Some [1 \<mapsto> 200]) ! 0) = 100"
  by (simp add: example_lump_1_200 start_balance_def period_extra_def dict_get_def)

section \<open>Lump sums beyond the term\<close>

text \<open>The schedule reads the extras of the listed periods only.\<close>

lemma schedule_loop_cong_extras:
  "(\<And>p. p \<in> set ps \<Longrightarrow> period_extra re ls p = period_extra re' ls' p) \<Longrightarrow>
   schedule_loop m re ls ps bal = schedule_loop m re' ls' ps bal"
proof (induction ps arbitrary: bal)
  case Nil
  show ?case by simp
next
  case (Cons p ps)
  have "period_extra re ls p = period_extra re' ls' p"
    using Cons.prems[of p] by simp
  moreover have "schedule_loop m re ls ps b = schedule_loop m re' ls' ps b" for b
    using Cons.IH Cons.prems by simp
  ultimately show ?case by (simp add: schedule_loop_Cons)
qed

text \<open>
  C9: a key \<open>k\<close> beyond \<open>total_periods\<close> has no effect: the schedule from a lump-sum
  dictionary and the schedule from the dictionary without \<open>k\<close> are the same list.
\<close>

theorem lumpsum_beyond_term_ignored:
  assumes "total_periods m < k"
  shows "amortization_schedule m re (Some (ls(k := None))) =
         amortization_schedule m re (Some ls)"
  unfolding amortization_schedule_def lumpsums_of_def option.case
  by (rule schedule_loop_cong_extras) (use assms in \<open>auto simp add: period_extra_def dict_get_def\<close>)

theorem lumpsum_beyond_term_ignored_witness:
  "total_periods example_loan < 3 \<and>
   amortization_schedule example_loan 0 (Some ([3 \<mapsto> 1000](3 := None))) =
   amortization_schedule example_loan 0 (Some [3 \<mapsto> 1000]) \<and>
   amortization_schedule example_loan 0 (Some [3 \<mapsto> 1000]) =
   amortization_schedule example_loan 0 None"
proof -
  have "amortization_schedule example_loan 0 (Some [3 \<mapsto> 1000]) =
        amortization_schedule example_loan 0 None"
    by code_simp
  then show ?thesis
    using lumpsum_beyond_term_ignored[of example_loan 3 0 "[3 \<mapsto> 1000]"] by simp
qed

section \<open>The optimizer\<close>

lemma amortization_schedule_nonempty:
  "1 \<le> total_periods m \<Longrightarrow> amortization_schedule m re lo \<noteq> []"
  by (simp add: amortization_schedule_def schedule_loop_Nil_iff)

lemma summarize_schedule_nonempty:
  "schedule \<noteq> [] \<Longrightarrow>
   summarize_schedule schedule =
     Inr \<lparr>total_paid = sum_list (map payment schedule),
          total_interest = sum_list (map interest schedule),
          periods_used = period (last schedule)\<rparr>"
  by (simp add: summarize_schedule_def)

lemma amortization_schedule_cong_extras:
  "(\<And>p. period_extra re (lumpsums_of lo) p = period_extra re' (lumpsums_of lo') p) \<Longrightarrow>
   amortization_schedule m re lo = amortization_schedule m re' lo'"
  unfolding amortization_schedule_def by (rule schedule_loop_cong_extras) simp

lemma dict_get_foldl_zero:
  "dict_get d p 0 = (0::real) \<Longrightarrow>
   dict_get (foldl (\<lambda>d i. d(f i \<mapsto> 0)) d is) p 0 = 0"
  by (induction "is" arbitrary: d) (simp_all add: dict_get_def)

lemma dict_get_empty: "dict_get Map.empty p dflt = dflt"
  by (simp add: dict_get_def)

lemma py_min_by_three:
  "py_min_by key [x, y, z] =
     Inr (if key x \<le> key y \<and> key x \<le> key z then x
          else if key y \<le> key z then y else z)"
  by auto

lemma optimize_extra_three:
  assumes "summarize_schedule (single_lumpsum_schedule m b s) = Inr s1"
    and "uniform_monthly_schedule m b s = Some sched2"
    and "summarize_schedule sched2 = Inr s2"
    and "annual_lumpsum_schedule m b s = Inr sched3"
    and "summarize_schedule sched3 = Inr s3"
  shows "optimize_extra m b s =
       Inr (if total_interest s1 \<le> total_interest s2 \<and> total_interest s1 \<le> total_interest s3
            then (''single_lumpsum'', s1)
            else if total_interest s2 \<le> total_interest s3 then (''uniform_monthly'', s2)
            else (''annual_lumpsum'', s3))"
  using assms by (simp add: optimize_extra_def py_min_by_three del: py_min_by.simps)

text \<open>
  C3: for a loan with \<open>total_periods \<ge> 1\<close> and \<open>compounds_per_year \<ge> 1\<close> and a start
  period not beyond the term, all three strategies are evaluated, and \<open>optimize_extra\<close>
  returns the name and the summary of the first one, in the order single lump sum,
  uniform, annual, whose total interest is minimal; each summary is the summary of that
  strategy's own schedule. With budget 0 the three summaries are the summary of the
  schedule without extras and \<open>single_lumpsum\<close> is returned. Neither the sign of the
  rate or of the budget nor \<open>start_period \<ge> 1\<close> is needed.
\<close>

theorem optimize_extra_selects_minimum:
  assumes "1 \<le> total_periods m"
    and "1 \<le> compounds_per_year m"
    and "s \<le> total_periods m"
  shows "\<exists>sched2 sched3 s1 s2 s3.
     summarize_schedule (single_lumpsum_schedule m b s) = Inr s1 \<and>
     uniform_monthly_schedule m b s = Some sched2 \<and>
     sched2 = amortization_schedule m (b / of_int (total_periods m - s + 1)) None \<and>
     summarize_schedule sched2 = Inr s2 \<and>
     annual_lumpsum_schedule m b s = Inr sched3 \<and> summarize_schedule sched3 = Inr s3 \<and>
     optimize_extra m b s =
       Inr (if total_interest s1 \<le> total_interest s2 \<and> total_interest s1 \<le> total_interest s3
            then (''single_lumpsum'', s1)
            else if total_interest s2 \<le> total_interest s3 then (''uniform_monthly'', s2)
            else (''annual_lumpsum'', s3)) \<and>
     (b = 0 \<longrightarrow>
        summarize_schedule (amortization_schedule m 0 None) = Inr s1 \<and> s2 = s1 \<and> s3 = s1 \<and>
        optimize_extra m b s = Inr (''single_lumpsum'', s1))"
proof -
  let ?rem = "total_periods m - s + 1"
  let ?c = "compounds_per_year m"
  let ?yrs = "\<lceil>(of_int ?rem :: real) / of_int ?c\<rceil>"
  let ?S1 = "single_lumpsum_schedule m b s"
  let ?S2 = "amortization_schedule m (b / of_int ?rem) None"
  let ?la = "foldl (\<lambda>d i. d(s + i * ?c \<mapsto> b / of_int ?yrs)) Map.empty
               (filter (\<lambda>i. s + i * ?c \<le> total_periods m) [0..?yrs - 1])"
  let ?S3 = "amortization_schedule m 0 (Some ?la)"
  have rem: "0 < ?rem" using assms(3) by simp
  have quot: "0 < (of_int ?rem :: real) / of_int ?c" using rem assms(2) by simp
  have yrs: "?yrs \<noteq> 0"
  proof
    assume "?yrs = 0"
    then have "?yrs \<le> 0" by linarith
    then have "(of_int ?rem :: real) / of_int ?c \<le> 0" by (simp only: ceiling_le_zero)
    with quot show False by linarith
  qed
  have ne: "amortization_schedule m re lo \<noteq> []" for re lo
    by (rule amortization_schedule_nonempty[OF assms(1)])
  obtain s1 where e1: "summarize_schedule ?S1 = Inr s1"
    using summarize_schedule_nonempty[OF ne] unfolding single_lumpsum_schedule_def by blast
  have u2: "uniform_monthly_schedule m b s = Some ?S2"
    using rem by (simp add: uniform_monthly_schedule_def)
  obtain s2 where e2: "summarize_schedule ?S2 = Inr s2"
    using summarize_schedule_nonempty[OF ne] by blast
  have a3: "annual_lumpsum_schedule m b s = Inr ?S3"
    using assms(2) yrs by (simp add: annual_lumpsum_schedule_def py_div_def Let_def)
  obtain s3 where e3: "summarize_schedule ?S3 = Inr s3"
    using summarize_schedule_nonempty[OF ne] by blast
  note opt = optimize_extra_three[OF e1 u2 e2 a3 e3]
  have zero: "summarize_schedule (amortization_schedule m 0 None) = Inr s1 \<and> s2 = s1 \<and> s3 = s1 \<and>
        optimize_extra m b s = Inr (''single_lumpsum'', s1)" if "b = 0"
  proof -
    have "?S1 = amortization_schedule m 0 None"
      unfolding single_lumpsum_schedule_def
      by (rule amortization_schedule_cong_extras)
         (simp add: that period_extra_def lumpsums_of_def dict_get_def)
    moreover have "?S2 = amortization_schedule m 0 None" by (simp add: that)
    moreover have "?S3 = amortization_schedule m 0 None"
      by (rule amortization_schedule_cong_extras)
         (simp add: that period_extra_def lumpsums_of_def dict_get_foldl_zero dict_get_empty)
    ultimately have "summarize_schedule (amortization_schedule m 0 None) = Inr s1"
      and "s2 = s1" and "s3 = s1"
      using e1 e2 e3 by simp_all
    then show ?thesis using opt by simp
  qed
  from e1 u2 e2 a3 e3 opt zero show ?thesis by blast
qed

theorem optimize_extra_selects_minimum_witness:
  "1 \<le> total_periods example_loan \<and> 1 \<le> compounds_per_year example_loan \<and>
   1 \<le> total_periods example_loan \<and>
   optimize_extra example_loan 50 1 =
     Inr (''single_lumpsum'', \<lparr>total_paid = 750, total_interest = 450, periods_used = 2\<rparr>)"
proof -
  have "optimize_extra example_loan 50 1 =
     Inr (''single_lumpsum'', \<lparr>total_paid = 750, total_interest = 450, periods_used = 2\<rparr>)"
    by code_simp
  then show ?thesis
    using optimize_extra_selects_minimum[of example_loan 1 50] by simp
qed

section \<open>A start period beyond the term\<close>

lemma ceiling_zero_span:
  fixes r c :: int
  assumes "0 < c" "- c < r" "r \<le> 0"
  shows "\<lceil>(of_int r :: real) / of_int c\<rceil> = 0"
proof -
  have "(of_int r :: real) / of_int c \<le> 0"
    using assms by (simp add: divide_nonpos_pos)
  moreover have "- 1 < (of_int r :: real) / of_int c"
  proof -
    have "- (of_int c :: real) < of_int r" using assms(2) by linarith
    then show ?thesis using assms(1) by (simp add: pos_less_divide_eq)
  qed
  ultimately show ?thesis by (intro ceiling_unique) simp_all
qed

text \<open>
  C10: for a loan with at least one period and a start period in
  \<open>total_periods + 1 .. total_periods + compounds_per_year\<close>, the number of years of
  strategy 3 is 0. Strategy 1 is summarized, strategy 2 is skipped by its guard, and the
  division \<open>budget / years\<close> of strategy 3 raises ZeroDivisionError, which is the result
  of \<open>optimize_extra\<close>.
\<close>

theorem annual_division_unguarded:
  assumes "1 \<le> total_periods m"
    and "total_periods m < s"
    and "s \<le> total_periods m + compounds_per_year m"
  shows "\<lceil>(of_int (total_periods m - s + 1) :: real) / of_int (compounds_per_year m)\<rceil> = 0 \<and>
         (\<exists>s1. summarize_schedule (single_lumpsum_schedule m b s) = Inr s1) \<and>
         uniform_monthly_schedule m b s = None \<and>
         annual_lumpsum_schedule m b s = Inl ZeroDivisionError \<and>
         optimize_extra m b s = Inl ZeroDivisionError"
proof -
  have c: "0 < compounds_per_year m" using assms by linarith
  have yrs: "\<lceil>(of_int (total_periods m - s + 1) :: real) / of_int (compounds_per_year m)\<rceil> = 0"
    using assms c by (intro ceiling_zero_span) linarith+
  have single: "summarize_schedule (single_lumpsum_schedule m b s) =
      Inr \<lparr>total_paid = sum_list (map payment (single_lumpsum_schedule m b s)),
          total_interest = sum_list (map interest (single_lumpsum_schedule m b s)),
          periods_used = period (last (single_lumpsum_schedule m b s))\<rparr>"
    unfolding single_lumpsum_schedule_def
    by (rule summarize_schedule_nonempty) (rule amortization_schedule_nonempty[OF assms(1)])
  have uniform: "uniform_monthly_schedule m b s = None"
    using assms(2) by (simp add: uniform_monthly_schedule_def)
  have annual: "annual_lumpsum_schedule m b s = Inl ZeroDivisionError"
    using c yrs by (simp add: annual_lumpsum_schedule_def py_div_def)
  have "optimize_extra m b s = Inl ZeroDivisionError"
    by (simp add: optimize_extra_def single uniform annual)
  with yrs single uniform annual show ?thesis by simp
qed

theorem annual_division_unguarded_witness:
  "1 \<le> total_periods example_loan \<and> total_periods example_loan < 3 \<and>
   3 \<le> total_periods example_loan + compounds_per_year example_loan \<and>
   optimize_extra example_loan 50 3 = Inl ZeroDivisionError"
  using annual_division_unguarded[of example_loan 3 50] by simp

section \<open>The periodic payment\<close>

lemma py_int_nonneg: "0 \<le> x \<Longrightarrow> py_int x = \<lfloor>x\<rfloor>"
  by (simp add: py_int_def)

lemma calc_periodic_payment_nat:
  "0 \<le> n \<Longrightarrow>
   calc_periodic_payment r n P =
     (if (1 + r) ^ nat n - 1 = 0 then Inl ZeroDivisionError
      else Inr (P * (r * (1 + r) ^ nat n) / ((1 + r) ^ nat n - 1)))"
  by (simp add: calc_periodic_payment_def py_pow_def py_div_def power_int_def)

lemma Mortgage_init_nonneg_term:
  assumes "0 \<le> fl (y * of_int c)"
  shows "Mortgage_init fl P a y c =
          (if c = 0 \<or> (1 + a / 100 / of_int c) ^ nat \<lfloor>fl (y * of_int c)\<rfloor> - 1 = 0
           then Inl ZeroDivisionError
           else Inr \<lparr>principal = P, annual_rate = a / 100, years = y,
                     compounds_per_year = c, monthly_rate = a / 100 / of_int c,
                     total_periods = \<lfloor>fl (y * of_int c)\<rfloor>,
                     monthly_payment =
                       P * (a / 100 / of_int c
                            * (1 + a / 100 / of_int c) ^ nat \<lfloor>fl (y * of_int c)\<rfloor>)
                       / ((1 + a / 100 / of_int c) ^ nat \<lfloor>fl (y * of_int c)\<rfloor> - 1)\<rparr>)"
proof -
  have n: "py_int (fl (y * of_int c)) = \<lfloor>fl (y * of_int c)\<rfloor>"
    using assms by (rule py_int_nonneg)
  have nn: "0 \<le> \<lfloor>fl (y * of_int c)\<rfloor>" using assms by simp
  show ?thesis
    unfolding Mortgage_init_def Let_def n calc_periodic_payment_nat[OF nn] py_div_def
    by simp
qed

text \<open>
  C7: with \<open>r = (annual_rate / 100) / compounds_per_year\<close> and \<open>n\<close> the floor of
  \<open>term_years * compounds_per_year\<close> as the multiplication returns it (the double
  product, \<open>fl\<close> of the exact one), construction for a non-negative product (where
  \<open>int()\<close> is the floor) returns the loan of \<open>n\<close> periods whose payment is
  \<open>P * (r * (1 + r)^n) / ((1 + r)^n - 1)\<close>, unless a divisor is zero. For \<open>r > 0\<close> and
  \<open>n \<ge> 1\<close> no divisor is zero and construction succeeds with that payment. For \<open>r = 0\<close>
  construction raises ZeroDivisionError, whatever the term.
\<close>

theorem periodic_payment_formula:
  "(let r = a / 100 / of_int c; n = \<lfloor>fl (y * of_int c)\<rfloor> in
     (0 \<le> fl (y * of_int c) \<longrightarrow>
        Mortgage_init fl P a y c =
          (if c = 0 \<or> (1 + r) ^ nat n - 1 = 0 then Inl ZeroDivisionError
           else Inr \<lparr>principal = P, annual_rate = a / 100, years = y,
                     compounds_per_year = c, monthly_rate = r, total_periods = n,
                     monthly_payment = P * (r * (1 + r) ^ nat n) / ((1 + r) ^ nat n - 1)\<rparr>)) \<and>
     (0 < r \<and> 1 \<le> n \<longrightarrow>
        c \<noteq> 0 \<and> (1 + r) ^ nat n - 1 \<noteq> 0 \<and>
        Mortgage_init fl P a y c =
          Inr \<lparr>principal = P, annual_rate = a / 100, years = y,
               compounds_per_year = c, monthly_rate = r, total_periods = n,
               monthly_payment = P * (r * (1 + r) ^ nat n) / ((1 + r) ^ nat n - 1)\<rparr>) \<and>
     (c \<noteq> 0 \<and> r = 0 \<longrightarrow> Mortgage_init fl P a y c = Inl ZeroDivisionError))"
proof -
  let ?r = "a / 100 / of_int c"
  let ?n = "\<lfloor>fl (y * of_int c)\<rfloor>"
  note general = Mortgage_init_nonneg_term[of fl y c P a]
  have pos: "c \<noteq> 0 \<and> (1 + ?r) ^ nat ?n - 1 \<noteq> 0 \<and> 0 \<le> fl (y * of_int c)"
    if "0 < ?r" "1 \<le> ?n"
  proof -
    have "c \<noteq> 0" using that(1) by auto
    moreover have "1 < (1 + ?r) ^ nat ?n"
      using that by (intro one_less_power) simp_all
    moreover have "0 \<le> fl (y * of_int c)" using that(2) by linarith
    ultimately show ?thesis by simp
  qed
  have succ: "Mortgage_init fl P a y c =
          Inr \<lparr>principal = P, annual_rate = a / 100, years = y,
               compounds_per_year = c, monthly_rate = ?r, total_periods = ?n,
               monthly_payment = P * (?r * (1 + ?r) ^ nat ?n) / ((1 + ?r) ^ nat ?n - 1)\<rparr>"
    if "0 < ?r" "1 \<le> ?n"
  proof -
    from pos[OF that]
    have "\<not> (c = 0 \<or> (1 + ?r) ^ nat ?n - 1 = 0)" and "0 \<le> fl (y * of_int c)"
      by blast+
    then show ?thesis by (simp only: general if_False)
  qed
  have zero: "Mortgage_init fl P a y c = Inl ZeroDivisionError" if "c \<noteq> 0" "?r = 0"
    using that
    by (simp add: Mortgage_init_def Let_def calc_periodic_payment_def py_pow_def py_div_def)
  show ?thesis unfolding Let_def using general pos succ zero by blast
qed

text \<open>
  The witness: the example loan, where the product 2 * 1 is exact; the same loan at rate
  0; and a third of a year of 12 periods. There \<open>years\<close> is the double nearest to 1/3,
  \<open>6004799503160661 / 2^54\<close>, the exact product is \<open>4 - 2^-52\<close>, and the rounding is to
  the doubles between 2 and 4, which are \<open>2^-51\<close> apart: the loan has 4 periods.
\<close>

theorem periodic_payment_formula_witness:
  "Mortgage_init (\<lambda>x. x) 300 100 2 1 = Inr example_loan \<and>
   Mortgage_init (\<lambda>x. x) 300 0 2 1 = Inl ZeroDivisionError \<and>
   (6004799503160661 / 2 ^ 54 :: real) * of_int 12 < 4 \<and>
   Mortgage_init (\<lambda>x. of_int \<lfloor>x * 2 ^ 51 + 1 / 2\<rfloor> / 2 ^ 51) 15 1200
       (6004799503160661 / 2 ^ 54) 12 =
     Inr \<lparr>principal = 15, annual_rate = 12, years = 6004799503160661 / 2 ^ 54,
          compounds_per_year = 12, monthly_rate = 1, total_periods = 4,
          monthly_payment = 16\<rparr>"
  using periodic_payment_formula[where fl = "\<lambda>x. x" and y = 2 and c = 1 and a = 100 and P = 300]
    periodic_payment_formula[where fl = "\<lambda>x. x" and y = 2 and c = 1 and a = 0 and P = 300]
    periodic_payment_formula[where fl = "\<lambda>x. of_int \<lfloor>x * 2 ^ 51 + 1 / 2\<rfloor> / 2 ^ 51"
      and y = "6004799503160661 / 2 ^ 54" and c = 12 and a = 1200 and P = 15]
  by (simp add: Let_def)

section \<open>The uniform strategy and the start period\<close>

text \<open>
  C2, evaluated: for the example loan, budget 50 and start period 2, the uniform strategy
  divides the budget by the one remaining period and generates its schedule with that
  recurring extra. The entry of period 1, before the start period, carries the extra 50;
  the optimizer then returns this strategy, whose interest 450 is below the 500 of a
  schedule with no extra in period 1.
\<close>

theorem uniform_extra_before_start_period:
  "uniform_monthly_schedule example_loan 50 2 =
     Some [\<lparr>period = 1, payment = 450, interest = 300, principal_paid = 100, extra = 50,
              balance = 150\<rparr>,
           \<lparr>period = 2, payment = 300, interest = 150, principal_paid = 150, extra = 0,
              balance = 0\<rparr>] \<and>
   optimize_extra example_loan 50 2 =
     Inr (''uniform_monthly'', \<lparr>total_paid = 750, total_interest = 450, periods_used = 2\<rparr>)"
  by code_simp

section \<open>The annuity: what the nominal payments clear\<close>

lemma payoff_balance_nonneg:
  "0 < monthly_rate m \<Longrightarrow> 0 \<le> monthly_payment m \<Longrightarrow> 0 \<le> payoff_balance m k"
  by (induction k) simp_all

lemma payoff_balance_pos:
  "0 < monthly_rate m \<Longrightarrow> 0 < monthly_payment m \<Longrightarrow> 0 < payoff_balance m (Suc k)"
  using payoff_balance_nonneg[of m k] by (simp add: add_nonneg_pos)

lemma payoff_balance_step:
  assumes "0 < monthly_rate m"
  shows "payoff_balance m (Suc k) * (1 + monthly_rate m) - monthly_payment m = payoff_balance m k"
  using assms by simp

lemma payoff_balance_closed:
  assumes "0 < monthly_rate m"
  shows "payoff_balance m k * monthly_rate m * (1 + monthly_rate m) ^ k =
           monthly_payment m * ((1 + monthly_rate m) ^ k - 1)"
proof (induction k)
  case 0
  show ?case by simp
next
  case (Suc k)
  have "payoff_balance m (Suc k) * monthly_rate m * (1 + monthly_rate m) ^ Suc k =
          (payoff_balance m k + monthly_payment m) * monthly_rate m * (1 + monthly_rate m) ^ k"
    using assms by simp
  also have "\<dots> = payoff_balance m k * monthly_rate m * (1 + monthly_rate m) ^ k
                   + monthly_payment m * monthly_rate m * (1 + monthly_rate m) ^ k"
    by (simp add: algebra_simps)
  also have "\<dots> = monthly_payment m * ((1 + monthly_rate m) ^ Suc k - 1)"
    unfolding Suc by (simp add: algebra_simps)
  finally show ?case .
qed

lemma Mortgage_init_fields:
  assumes "Mortgage_init fl P a y c = Inr m" "0 < monthly_rate m" "1 \<le> total_periods m"
  shows "principal m = P"
    and "1 < (1 + monthly_rate m) ^ nat (total_periods m)"
    and "monthly_payment m =
           P * (monthly_rate m * (1 + monthly_rate m) ^ nat (total_periods m))
             / ((1 + monthly_rate m) ^ nat (total_periods m) - 1)"
proof -
  show gt: "1 < (1 + monthly_rate m) ^ nat (total_periods m)"
    using assms(2,3) by (intro one_less_power) simp_all
  from assms(1) obtain mp where
    mp: "calc_periodic_payment (monthly_rate m) (total_periods m) P = Inr mp"
    and f: "principal m = P" "monthly_payment m = mp"
    by (auto simp add: Mortgage_init_def Let_def split: sum.splits)
  show "principal m = P" by (rule f)
  have "0 \<le> total_periods m" using assms(3) by simp
  from mp[unfolded calc_periodic_payment_nat[OF this]] gt
  show "monthly_payment m =
           P * (monthly_rate m * (1 + monthly_rate m) ^ nat (total_periods m))
             / ((1 + monthly_rate m) ^ nat (total_periods m) - 1)"
    unfolding f by (simp split: if_splits)
qed

lemma Mortgage_init_payoff:
  assumes "Mortgage_init fl P a y c = Inr m" "0 < P" "0 < monthly_rate m" "1 \<le> total_periods m"
  shows "0 < monthly_payment m"
    and "payoff_balance m (nat (total_periods m)) = principal m"
proof -
  let ?r = "monthly_rate m"
  let ?n = "nat (total_periods m)"
  let ?q = "(1 + ?r) ^ ?n"
  note f = Mortgage_init_fields[OF assms(1,3,4)]
  have q: "1 < ?q" by (rule f(2))
  show mp: "0 < monthly_payment m"
    unfolding f(3) using assms(2,3) q by simp
  have "payoff_balance m ?n * ?r * ?q = monthly_payment m * (?q - 1)"
    by (rule payoff_balance_closed[OF assms(3)])
  also have "\<dots> = P * (?r * ?q)" unfolding f(3) using q by simp
  finally have "payoff_balance m ?n * (?r * ?q) = P * (?r * ?q)" by (simp add: mult.assoc)
  moreover have "?r * ?q \<noteq> 0" using assms(3) q by simp
  ultimately have "payoff_balance m ?n = P" by (metis mult_right_cancel)
  then show "payoff_balance m ?n = principal m" by (simp add: f(1))
qed

section \<open>The balance against the nominal payoff\<close>

lemma interest_period_entry: "interest (period_entry m p x b) = b * monthly_rate m"
  by (simp add: period_entry_def)

lemma period_period_entry: "period (period_entry m p x b) = p"
  by (simp add: period_entry_def)

lemma balance_period_entry_le_payoff:
  assumes "0 < monthly_rate m" "0 \<le> monthly_payment m" "0 \<le> x"
    and "b \<le> payoff_balance m (Suc k)"
  shows "balance (period_entry m p x b) \<le> payoff_balance m k"
proof (cases "b < monthly_payment m - b * monthly_rate m + x")
  case True
  then show ?thesis
    using payoff_balance_nonneg[OF assms(1,2), of k] by (simp add: period_entry_def)
next
  case False
  have "b * (1 + monthly_rate m) \<le> payoff_balance m (Suc k) * (1 + monthly_rate m)"
    using assms(1,4) by (intro mult_right_mono) simp_all
  then have "b * (1 + monthly_rate m) - monthly_payment m \<le> payoff_balance m k"
    using payoff_balance_step[OF assms(1), of k] by linarith
  then have "b - (monthly_payment m - b * monthly_rate m + x) \<le> payoff_balance m k"
    using assms(3) by (simp add: algebra_simps)
  then show ?thesis using False by (simp add: period_entry_def)
qed

lemma balance_period_entry_less_payoff:
  assumes "0 < monthly_rate m" "0 < x"
    and "b \<le> payoff_balance m (Suc k)"
    and "0 < balance (period_entry m p x b)"
  shows "balance (period_entry m p x b) < payoff_balance m k"
proof -
  have nocap: "\<not> b < monthly_payment m - b * monthly_rate m + x"
    using assms(4) by (auto simp add: period_entry_def)
  have "b * (1 + monthly_rate m) \<le> payoff_balance m (Suc k) * (1 + monthly_rate m)"
    using assms(1,3) by (intro mult_right_mono) simp_all
  then have "b * (1 + monthly_rate m) - monthly_payment m \<le> payoff_balance m k"
    using payoff_balance_step[OF assms(1), of k] by linarith
  then have "b - (monthly_payment m - b * monthly_rate m + x) < payoff_balance m k"
    using assms(2) by (simp add: algebra_simps)
  then show ?thesis using nocap by (simp add: period_entry_def)
qed

lemma balance_period_entry_payoff:
  assumes "0 < monthly_rate m" "0 \<le> monthly_payment m"
  shows "balance (period_entry m p 0 (payoff_balance m (Suc k))) = payoff_balance m k"
proof -
  let ?b = "payoff_balance m (Suc k)"
  have step: "?b * (1 + monthly_rate m) - monthly_payment m = payoff_balance m k"
    by (rule payoff_balance_step[OF assms(1)])
  have eq: "?b - (monthly_payment m - ?b * monthly_rate m + 0) = payoff_balance m k"
    using step by (simp only: algebra_simps)
  have "0 \<le> ?b - (monthly_payment m - ?b * monthly_rate m + 0)"
    unfolding eq by (rule payoff_balance_nonneg[OF assms])
  then have nocap: "\<not> ?b < monthly_payment m - ?b * monthly_rate m + 0" by linarith
  show ?thesis
    unfolding period_entry_def using nocap eq by (simp only: if_False entry.simps)
qed

lemma Mortgage_init_amortizing:
  assumes "Mortgage_init fl P a y c = Inr m" "0 < P" "0 < monthly_rate m" "1 \<le> total_periods m"
  shows "amortizing m"
  unfolding amortizing_def
  using Mortgage_init_payoff[OF assms] Mortgage_init_fields(1)[OF assms(1,3,4)] assms
  by simp

lemma period_extra_nonneg:
  assumes "0 \<le> re" "\<forall>k v. ls k = Some v \<longrightarrow> 0 \<le> v"
  shows "0 \<le> period_extra re ls p"
  using assms by (cases "ls p") (simp_all add: period_extra_def dict_get_def)

lemma length_amortization_schedule:
  "length (amortization_schedule m re lo) \<le> nat (total_periods m)"
  using length_schedule_loop[of m re "lumpsums_of lo" "[1..total_periods m]" "principal m"]
  by (simp add: amortization_schedule_def)

lemma period_amortization_schedule:
  "i < length (amortization_schedule m re lo) \<Longrightarrow>
   period (amortization_schedule m re lo ! i) = 1 + int i"
  by (subst amortization_schedule_nth(1)) (simp_all add: period_period_entry)

lemma interest_amortization_schedule:
  "i < length (amortization_schedule m re lo) \<Longrightarrow>
   interest (amortization_schedule m re lo ! i) =
     start_balance (principal m) (amortization_schedule m re lo) i * monthly_rate m"
  by (subst amortization_schedule_nth(1)) (simp_all add: interest_period_entry)

lemma balance_amortization_schedule:
  "i < length (amortization_schedule m re lo) \<Longrightarrow>
   balance (amortization_schedule m re lo ! i) =
     balance (period_entry m (1 + int i) (period_extra re (lumpsums_of lo) (1 + int i))
        (start_balance (principal m) (amortization_schedule m re lo) i))"
  by (subst amortization_schedule_nth(1)) simp_all

lemma start_balance_Suc: "start_balance b0 S (Suc i) = balance (S ! i)"
  by (simp add: start_balance_def)

lemma period_last_amortization_schedule:
  assumes "amortization_schedule m re lo \<noteq> []"
  shows "period (last (amortization_schedule m re lo)) =
           int (length (amortization_schedule m re lo))"
proof -
  let ?S = "amortization_schedule m re lo"
  have "last ?S = ?S ! (length ?S - 1)" using assms by (rule last_conv_nth)
  moreover have "length ?S - 1 < length ?S" using assms by simp
  ultimately show ?thesis
    using period_amortization_schedule[of "length ?S - 1" m re lo] assms
    by (simp add: Suc_leI)
qed

text \<open>With non-negative extras the balance stays at or below what the remaining nominal
  payments clear.\<close>

lemma start_balance_le_payoff:
  assumes "amortizing m" and "\<And>p. 0 \<le> period_extra re (lumpsums_of lo) p"
    and "i < length (amortization_schedule m re lo)"
  shows "start_balance (principal m) (amortization_schedule m re lo) i
           \<le> payoff_balance m (nat (total_periods m) - i)"
  using assms(3)
proof (induction i)
  case 0
  show ?case using assms(1) by (simp add: start_balance_def amortizing_def)
next
  case (Suc i)
  let ?S = "amortization_schedule m re lo"
  let ?N = "nat (total_periods m)"
  from Suc.prems have i: "i < length ?S" by simp
  have "Suc i < ?N" using Suc.prems length_amortization_schedule[of m re lo] by linarith
  then have N: "?N - i = Suc (?N - Suc i)" by simp
  have "start_balance (principal m) ?S i \<le> payoff_balance m (Suc (?N - Suc i))"
    using Suc.IH[OF i] unfolding N .
  then have "balance (?S ! i) \<le> payoff_balance m (?N - Suc i)"
    unfolding balance_amortization_schedule[OF i]
    using assms(1,2) by (intro balance_period_entry_le_payoff) (simp_all add: amortizing_def)
  then show ?case by (simp only: start_balance_Suc)
qed

lemma Mortgage_init_example: "Mortgage_init (\<lambda>x. x) 300 100 2 1 = Inr example_loan"
  by (simp add: Mortgage_init_nonneg_term)

section \<open>The schedule without extras\<close>

text \<open>Without extras the balance is exactly what the remaining nominal payments clear.\<close>

lemma start_balance_eq_payoff:
  assumes "amortizing m" and "i < length (amortization_schedule m 0 None)"
  shows "start_balance (principal m) (amortization_schedule m 0 None) i
           = payoff_balance m (nat (total_periods m) - i)"
  using assms(2)
proof (induction i)
  case 0
  show ?case using assms(1) by (simp add: start_balance_def amortizing_def)
next
  case (Suc i)
  let ?S = "amortization_schedule m 0 None"
  let ?N = "nat (total_periods m)"
  from Suc.prems have i: "i < length ?S" by simp
  have "Suc i < ?N" using Suc.prems length_amortization_schedule[of m 0 None] by linarith
  then have N: "?N - i = Suc (?N - Suc i)" by simp
  have x: "period_extra 0 (lumpsums_of None) p = 0" for p
    by (simp add: period_extra_def lumpsums_of_def dict_get_empty)
  have "balance (?S ! i) = payoff_balance m (?N - Suc i)"
    unfolding balance_amortization_schedule[OF i] x Suc.IH[OF i] N
    using assms(1) by (intro balance_period_entry_payoff) (simp_all add: amortizing_def)
  then show ?case by (simp only: start_balance_Suc)
qed

lemma length_baseline:
  assumes "amortizing m"
  shows "length (amortization_schedule m 0 None) = nat (total_periods m)"
proof -
  let ?S = "amortization_schedule m 0 None"
  let ?N = "nat (total_periods m)"
  let ?j = "length ?S - 1"
  have r: "0 < monthly_rate m" and mp: "0 < monthly_payment m"
    using assms by (simp_all add: amortizing_def)
  have ne: "?S \<noteq> []"
    using assms by (intro amortization_schedule_nonempty) (simp add: amortizing_def)
  then have j: "?j < length ?S" and sj: "Suc ?j = length ?S" by simp_all
  have le: "Suc ?j \<le> ?N" using sj length_amortization_schedule[of m 0 None] by simp
  have x: "period_extra 0 (lumpsums_of None) p = 0" for p
    by (simp add: period_extra_def lumpsums_of_def dict_get_empty)
  have "\<not> Suc ?j < ?N"
  proof
    assume lt: "Suc ?j < ?N"
    then obtain k where k: "?N - ?j = Suc (Suc k)"
      by (metis Suc_diff_Suc Suc_lessD zero_less_diff gr0_implies_Suc)
    have "balance (?S ! ?j) = payoff_balance m (Suc k)"
      unfolding balance_amortization_schedule[OF j] x start_balance_eq_payoff[OF assms j] k
      using r mp by (intro balance_period_entry_payoff) simp_all
    then have "0 < balance (?S ! ?j)" using payoff_balance_pos[OF r mp, of k] by simp
    moreover have "1 + int ?j < total_periods m" using lt by linarith
    ultimately have "Suc ?j < length ?S" using amortization_schedule_nth(2)[OF j] by simp
    then show False using sj by simp
  qed
  with le sj show ?thesis by simp
qed

text \<open>
  C6: for a constructed loan with positive principal and rate and at least one period,
  the schedule without extras is summarized, and its \<open>periods_used\<close> is
  \<open>total_periods\<close>.
\<close>

theorem baseline_uses_all_periods:
  assumes "Mortgage_init fl P a y c = Inr m"
    and "0 < P" and "0 < monthly_rate m" and "1 \<le> total_periods m"
  shows "\<exists>s. summarize_schedule (amortization_schedule m 0 None) = Inr s \<and>
             periods_used s = total_periods m"
proof -
  let ?S = "amortization_schedule m 0 None"
  have am: "amortizing m" by (rule Mortgage_init_amortizing[OF assms])
  have ne: "?S \<noteq> []" by (rule amortization_schedule_nonempty[OF assms(4)])
  have "period (last ?S) = int (length ?S)" by (rule period_last_amortization_schedule[OF ne])
  also have "\<dots> = total_periods m" using length_baseline[OF am] assms(4) by simp
  finally show ?thesis using summarize_schedule_nonempty[OF ne] by simp
qed

theorem baseline_uses_all_periods_witness:
  "Mortgage_init (\<lambda>x. x) 300 100 2 1 = Inr example_loan \<and> (0::real) < 300 \<and>
   0 < monthly_rate example_loan \<and> 1 \<le> total_periods example_loan \<and>
   summarize_schedule (amortization_schedule example_loan 0 None) =
     Inr \<lparr>total_paid = 800, total_interest = 500, periods_used = 2\<rparr>"
proof -
  have "summarize_schedule (amortization_schedule example_loan 0 None) =
     Inr \<lparr>total_paid = 800, total_interest = 500, periods_used = 2\<rparr>"
    by code_simp
  then show ?thesis
    using baseline_uses_all_periods[OF Mortgage_init_example] by (simp add: Mortgage_init_example)
qed

section \<open>Extras and total interest\<close>

lemma sum_list_map_nth:
  "sum_list (map f xs) = (\<Sum>i<length xs. f (xs ! i))"
  by (auto simp add: sum_list_sum_nth atLeast0LessThan intro!: sum.cong)

lemma total_interest_as_sum:
  "sum_list (map interest (amortization_schedule m re lo)) =
     (\<Sum>i<length (amortization_schedule m re lo).
        start_balance (principal m) (amortization_schedule m re lo) i * monthly_rate m)"
  unfolding sum_list_map_nth
  by (rule sum.cong) (simp_all add: interest_amortization_schedule)

lemma baseline_interest_as_sum:
  assumes "amortizing m"
  shows "sum_list (map interest (amortization_schedule m 0 None)) =
     (\<Sum>i<nat (total_periods m).
        payoff_balance m (nat (total_periods m) - i) * monthly_rate m)"
  unfolding total_interest_as_sum length_baseline[OF assms]
  by (rule sum.cong) (simp_all add: start_balance_eq_payoff[OF assms] length_baseline[OF assms])

lemma interest_le_baseline:
  assumes "amortizing m" and "\<And>p. 0 \<le> period_extra re (lumpsums_of lo) p"
  shows "sum_list (map interest (amortization_schedule m re lo))
           \<le> sum_list (map interest (amortization_schedule m 0 None))"
proof -
  let ?S = "amortization_schedule m re lo"
  let ?N = "nat (total_periods m)"
  let ?f = "\<lambda>i. start_balance (principal m) ?S i * monthly_rate m"
  let ?g = "\<lambda>i. payoff_balance m (?N - i) * monthly_rate m"
  have r: "0 < monthly_rate m" and mp: "0 < monthly_payment m"
    using assms(1) by (simp_all add: amortizing_def)
  have "(\<Sum>i<length ?S. ?f i) \<le> (\<Sum>i<length ?S. ?g i)"
  proof (rule sum_mono)
    fix i assume "i \<in> {..<length ?S}"
    then have "i < length ?S" by simp
    from start_balance_le_payoff[OF assms this] r
    show "?f i \<le> ?g i" by (intro mult_right_mono) simp_all
  qed
  also have "\<dots> \<le> (\<Sum>i<?N. ?g i)"
  proof (rule sum_mono2)
    show "finite {..<?N}" by simp
    show "{..<length ?S} \<subseteq> {..<?N}" using length_amortization_schedule[of m re lo] by simp
    fix i assume "i \<in> {..<?N} - {..<length ?S}"
    show "0 \<le> ?g i"
      using payoff_balance_nonneg[of m "?N - i"] r mp by simp
  qed
  finally show ?thesis
    unfolding total_interest_as_sum[of m re lo] baseline_interest_as_sum[OF assms(1)] .
qed

lemma interest_less_baseline:
  assumes "amortizing m" and "\<And>p. 0 \<le> period_extra re (lumpsums_of lo) p"
    and "Suc j < length (amortization_schedule m re lo)"
    and "0 < period_extra re (lumpsums_of lo) (1 + int j)"
  shows "sum_list (map interest (amortization_schedule m re lo))
           < sum_list (map interest (amortization_schedule m 0 None))"
proof -
  let ?S = "amortization_schedule m re lo"
  let ?N = "nat (total_periods m)"
  let ?f = "\<lambda>i. start_balance (principal m) ?S i * monthly_rate m"
  let ?g = "\<lambda>i. payoff_balance m (?N - i) * monthly_rate m"
  have r: "0 < monthly_rate m" and mp: "0 < monthly_payment m"
    using assms(1) by (simp_all add: amortizing_def)
  from assms(3) have j: "j < length ?S" by simp
  have "Suc j < ?N" using assms(3) length_amortization_schedule[of m re lo] by linarith
  then have N: "?N - j = Suc (?N - Suc j)" by simp
  have pos: "0 < balance (?S ! j)"
    using amortization_schedule_nth(2)[OF j] assms(3) by simp
  have "start_balance (principal m) ?S j \<le> payoff_balance m (Suc (?N - Suc j))"
    using start_balance_le_payoff[OF assms(1,2) j] unfolding N .
  then have "balance (?S ! j) < payoff_balance m (?N - Suc j)"
    using pos unfolding balance_amortization_schedule[OF j]
    by (intro balance_period_entry_less_payoff[OF r assms(4)])
  then have strict: "?f (Suc j) < ?g (Suc j)"
    unfolding start_balance_Suc using r by simp
  have "(\<Sum>i<length ?S. ?f i) < (\<Sum>i<length ?S. ?g i)"
  proof (rule sum_strict_mono_ex1)
    show "finite {..<length ?S}" by simp
    show "\<forall>i\<in>{..<length ?S}. ?f i \<le> ?g i"
    proof
      fix i assume "i \<in> {..<length ?S}"
      then have "i < length ?S" by simp
      from start_balance_le_payoff[OF assms(1,2) this] r
      show "?f i \<le> ?g i" by (intro mult_right_mono) simp_all
    qed
    show "\<exists>i\<in>{..<length ?S}. ?f i < ?g i"
      using strict assms(3) by (intro bexI[of _ "Suc j"]) simp_all
  qed
  also have "\<dots> \<le> (\<Sum>i<?N. ?g i)"
  proof (rule sum_mono2)
    show "finite {..<?N}" by simp
    show "{..<length ?S} \<subseteq> {..<?N}" using length_amortization_schedule[of m re lo] by simp
    fix i assume "i \<in> {..<?N} - {..<length ?S}"
    show "0 \<le> ?g i"
      using payoff_balance_nonneg[of m "?N - i"] r mp by simp
  qed
  finally show ?thesis
    unfolding total_interest_as_sum[of m re lo] baseline_interest_as_sum[OF assms(1)] .
qed

text \<open>A schedule that ends before the term saves the interest of the periods it skips.\<close>

lemma interest_less_baseline_early:
  assumes "amortizing m" and "\<And>p. 0 \<le> period_extra re (lumpsums_of lo) p"
    and "length (amortization_schedule m re lo) < nat (total_periods m)"
  shows "sum_list (map interest (amortization_schedule m re lo))
           < sum_list (map interest (amortization_schedule m 0 None))"
proof -
  let ?S = "amortization_schedule m re lo"
  let ?N = "nat (total_periods m)"
  let ?f = "\<lambda>i. start_balance (principal m) ?S i * monthly_rate m"
  let ?g = "\<lambda>i. payoff_balance m (?N - i) * monthly_rate m"
  have r: "0 < monthly_rate m" and mp: "0 < monthly_payment m"
    using assms(1) by (simp_all add: amortizing_def)
  have gpos: "0 < ?g i" if "i < ?N" for i
  proof -
    from that obtain k where k: "?N - i = Suc k" by (metis Suc_diff_Suc)
    have "0 < payoff_balance m (Suc k)" by (rule payoff_balance_pos[OF r mp])
    then have "0 < payoff_balance m (Suc k) * monthly_rate m" using r by (rule mult_pos_pos)
    then show ?thesis by (simp only: k)
  qed
  have "(\<Sum>i<length ?S. ?f i) \<le> (\<Sum>i<length ?S. ?g i)"
  proof (rule sum_mono)
    fix i assume "i \<in> {..<length ?S}"
    then have "i < length ?S" by simp
    from start_balance_le_payoff[OF assms(1,2) this] r
    show "?f i \<le> ?g i" by (intro mult_right_mono) simp_all
  qed
  also have "\<dots> < (\<Sum>i<?N. ?g i)"
  proof (rule sum_strict_mono2)
    show "finite {..<?N}" by simp
    show "{..<length ?S} \<subseteq> {..<?N}" using assms(3) by simp
    show "length ?S \<in> {..<?N} - {..<length ?S}" using assms(3) by simp
    show "0 < ?g (length ?S)" using gpos[OF assms(3)] .
    show "0 \<le> ?g i" if "i \<in> {..<?N}" for i
      using gpos[of i] that by simp
  qed
  finally show ?thesis
    unfolding total_interest_as_sum[of m re lo] baseline_interest_as_sum[OF assms(1)] .
qed

text \<open>
  C8, as the code has it. For a constructed loan with positive principal and rate and at
  least one period, and non-negative extras: \<open>periods_used\<close> is at most
  \<open>total_periods\<close>, the total interest is at most that of the schedule without extras,
  and it is strictly less when the extra is positive in a generated period other than
  period \<open>total_periods\<close>.
\<close>

theorem extras_reduce_interest:
  assumes "Mortgage_init fl P a y c = Inr m"
    and "0 < P" and "0 < monthly_rate m" and "1 \<le> total_periods m"
    and "0 \<le> re" and "\<forall>k v. lumpsums_of lo k = Some v \<longrightarrow> 0 \<le> v"
  shows "\<exists>s s0.
           summarize_schedule (amortization_schedule m re lo) = Inr s \<and>
           summarize_schedule (amortization_schedule m 0 None) = Inr s0 \<and>
           periods_used s \<le> total_periods m \<and>
           total_interest s \<le> total_interest s0 \<and>
           ((\<exists>k. 1 \<le> k \<and> k \<le> periods_used s \<and> k < total_periods m \<and>
                 0 < period_extra re (lumpsums_of lo) k) \<longrightarrow>
              total_interest s < total_interest s0)"
proof -
  let ?S = "amortization_schedule m re lo"
  let ?B = "amortization_schedule m 0 None"
  have am: "amortizing m" by (rule Mortgage_init_amortizing[OF assms(1-4)])
  have ex: "0 \<le> period_extra re (lumpsums_of lo) p" for p
    by (rule period_extra_nonneg[OF assms(5,6)])
  have ne: "?S \<noteq> []" and ne0: "?B \<noteq> []"
    by (rule amortization_schedule_nonempty[OF assms(4)])+
  note s = summarize_schedule_nonempty[OF ne]
  note s0 = summarize_schedule_nonempty[OF ne0]
  have used: "period (last ?S) = int (length ?S)"
    by (rule period_last_amortization_schedule[OF ne])
  have le_n: "period (last ?S) \<le> total_periods m"
    unfolding used using length_amortization_schedule[of m re lo] assms(4) by linarith
  have le: "sum_list (map interest ?S) \<le> sum_list (map interest ?B)"
    by (rule interest_le_baseline[OF am ex])
  have less: "sum_list (map interest ?S) < sum_list (map interest ?B)"
    if "\<exists>k. 1 \<le> k \<and> k \<le> period (last ?S) \<and> k < total_periods m \<and>
            0 < period_extra re (lumpsums_of lo) k"
  proof -
    from that obtain k where k: "1 \<le> k" "k \<le> int (length ?S)" "k < total_periods m"
      "0 < period_extra re (lumpsums_of lo) k" unfolding used by blast
    show ?thesis
    proof (cases "k < int (length ?S)")
      case True
      then have "Suc (nat (k - 1)) < length ?S" using k(1) by linarith
      moreover have "1 + int (nat (k - 1)) = k" using k(1) by simp
      ultimately show ?thesis
        using interest_less_baseline[OF am ex, of "nat (k - 1)"] k(4) by simp
    next
      case False
      with k(2,3) have "length ?S < nat (total_periods m)" by linarith
      then show ?thesis by (rule interest_less_baseline_early[OF am ex])
    qed
  qed
  show ?thesis
    unfolding s s0 using le_n le less by simp
qed

text \<open>
  The witness: a recurring extra of 50 (positive in period 1 of 2), and a lump sum of
  200 in period 1, which pays the loan off in that period.
\<close>

theorem extras_reduce_interest_witness:
  "Mortgage_init (\<lambda>x. x) 300 100 2 1 = Inr example_loan \<and> (0::real) < 300 \<and>
   0 < monthly_rate example_loan \<and> 1 \<le> total_periods example_loan \<and> (0::real) \<le> 50 \<and>
   0 < period_extra 50 (lumpsums_of None) 1 \<and>
   0 < period_extra 0 (lumpsums_of (Some [1 \<mapsto> 200])) 1 \<and>
   summarize_schedule (amortization_schedule example_loan 50 None) =
     Inr \<lparr>total_paid = 750, total_interest = 450, periods_used = 2\<rparr> \<and>
   summarize_schedule (amortization_schedule example_loan 0 (Some [1 \<mapsto> 200])) =
     Inr \<lparr>total_paid = 600, total_interest = 300, periods_used = 1\<rparr> \<and>
   summarize_schedule (amortization_schedule example_loan 0 None) =
     Inr \<lparr>total_paid = 800, total_interest = 500, periods_used = 2\<rparr>"
proof -
  have S: "summarize_schedule (amortization_schedule example_loan 50 None) =
     Inr \<lparr>total_paid = 750, total_interest = 450, periods_used = 2\<rparr>"
    by code_simp
  have L: "summarize_schedule (amortization_schedule example_loan 0 (Some [1 \<mapsto> 200])) =
     Inr \<lparr>total_paid = 600, total_interest = 300, periods_used = 1\<rparr>"
    by code_simp
  have B: "summarize_schedule (amortization_schedule example_loan 0 None) =
     Inr \<lparr>total_paid = 800, total_interest = 500, periods_used = 2\<rparr>"
    by code_simp
  have lo: "\<forall>k v. lumpsums_of None k = Some v \<longrightarrow> (0::real) \<le> v"
    by (simp add: lumpsums_of_def)
  have lo': "\<forall>k v. lumpsums_of (Some [1 \<mapsto> 200]) k = Some v \<longrightarrow> (0::real) \<le> v"
    by (simp add: lumpsums_of_def)
  show ?thesis
    using extras_reduce_interest[OF Mortgage_init_example _ _ _ _ lo, of 50]
      extras_reduce_interest[OF Mortgage_init_example _ _ _ _ lo', of 0]
    by (simp add: Mortgage_init_example S L B period_extra_def lumpsums_of_def dict_get_def)
qed

text \<open>
  C8 as stated fails for an extra that is positive in period \<open>total_periods\<close> only: a
  lump sum of 50 in period 2 of the example loan is keyed within the schedule, yet the
  capped last payment leaves the total interest at the 500 of the schedule without
  extras.
\<close>

theorem final_period_extra_counterexample:
  "Mortgage_init (\<lambda>x. x) 300 100 2 1 = Inr example_loan \<and>
   0 < monthly_rate example_loan \<and> 1 \<le> total_periods example_loan \<and>
   0 < period_extra 0 (lumpsums_of (Some [2 \<mapsto> 50])) 2 \<and>
   summarize_schedule (amortization_schedule example_loan 0 (Some [2 \<mapsto> 50])) =
     Inr \<lparr>total_paid = 800, total_interest = 500, periods_used = 2\<rparr> \<and>
   summarize_schedule (amortization_schedule example_loan 0 None) =
     Inr \<lparr>total_paid = 800, total_interest = 500, periods_used = 2\<rparr>"
proof -
  have S: "summarize_schedule (amortization_schedule example_loan 0 (Some [2 \<mapsto> 50])) =
     Inr \<lparr>total_paid = 800, total_interest = 500, periods_used = 2\<rparr>"
    by code_simp
  have B: "summarize_schedule (amortization_schedule example_loan 0 None) =
     Inr \<lparr>total_paid = 800, total_interest = 500, periods_used = 2\<rparr>"
    by code_simp
  show ?thesis
    by (simp add: Mortgage_init_example S B period_extra_def lumpsums_of_def dict_get_def)
qed

end
